theory Spec2Isabelle
  imports Complex_Main
begin

section \<open>Python values and helpers\<close>

text \<open>
  The feeds of \<^verbatim>\<open>src/feeds.py\<close> and the sequencer of \<^verbatim>\<open>src/retrofeed.py\<close>,
  embedded function by function.  Python exceptions are values of \<open>error\<close>; a function
  that may raise returns \<open>error + 'a\<close> with \<open>Inl\<close> for the exception.
\<close>

datatype error = KeyError | TypeError | IndexError | OverflowError | ValueError

text \<open>Configuration values as YAML delivers them (the scalars the feeds read, and lists).\<close>

datatype pyval = PyNone | PyBool bool | PyInt int | PyStr string | PyList "pyval list"

text \<open>
  A \<^verbatim>\<open>datetime\<close> is the number of microseconds since \<^verbatim>\<open>datetime.min\<close>
  (Python's datetime arithmetic is exact integer arithmetic on microseconds); a
  \<^verbatim>\<open>timedelta\<close> is a number of microseconds.
\<close>

type_synonym datetime = int

definition datetime_min :: datetime where
  "datetime_min = 0"

text \<open>\<^verbatim>\<open>str(n)\<close> for an integer: its decimal digits, with a minus sign when negative.\<close>

definition digit_char :: "nat \<Rightarrow> char" where
  "digit_char d = ''0123456789'' ! d"

fun str_nat :: "nat \<Rightarrow> string" where
  "str_nat n = (if n < 10 then [digit_char n] else str_nat (n div 10) @ [digit_char (n mod 10)])"

definition py_str :: "int \<Rightarrow> string" where
  "py_str i = (if i < 0 then ''-'' @ str_nat (nat (- i)) else str_nat (nat i))"

text \<open>
  Strings are byte strings here, and the case and whitespace tables are the ASCII ones:
  \<^verbatim>\<open>str.upper\<close> maps a-z to A-Z and \<^verbatim>\<open>str.strip\<close> removes the ASCII characters
  for which \<^verbatim>\<open>str.isspace\<close> holds (tab, LF, VT, FF, CR, FS, GS, RS, US, space) from
  both ends.
\<close>

definition upper_char :: "char \<Rightarrow> char" where
  "upper_char c =
     (case map_of (zip ''abcdefghijklmnopqrstuvwxyz'' ''ABCDEFGHIJKLMNOPQRSTUVWXYZ'') c of
        None \<Rightarrow> c
      | Some u \<Rightarrow> u)"

definition py_upper :: "string \<Rightarrow> string" where
  "py_upper s = map upper_char s"

definition is_space :: "char \<Rightarrow> bool" where
  "is_space c = (c \<in> set [CHR 0x09, CHR 0x0A, CHR 0x0B, CHR 0x0C, CHR 0x0D,
                          CHR 0x1C, CHR 0x1D, CHR 0x1E, CHR 0x1F, CHR 0x20])"

definition py_strip :: "string \<Rightarrow> string" where
  "py_strip s = rev (dropWhile is_space (rev (dropWhile is_space s)))"

text \<open>\<^verbatim>\<open>sub in s\<close>: \<open>sub\<close> occurs in \<open>s\<close> as a contiguous substring.\<close>

fun starts_with :: "string \<Rightarrow> string \<Rightarrow> bool" where
  "starts_with [] s = True"
| "starts_with (p # ps) [] = False"
| "starts_with (p # ps) (c # cs) = (p = c \<and> starts_with ps cs)"

fun py_in :: "string \<Rightarrow> string \<Rightarrow> bool" where
  "py_in sub [] = (sub = [])"
| "py_in sub (c # cs) = (starts_with sub (c # cs) \<or> py_in sub cs)"

text \<open>
  \<^verbatim>\<open>s * n\<close> (the empty string when \<open>n \<le> 0\<close>), and the format specs \<^verbatim>\<open>{s:9}\<close>
  (pad on the right to the width) and \<^verbatim>\<open>{s:>9}\<close> (pad on the left); neither truncates.
\<close>

definition py_str_mul :: "string \<Rightarrow> int \<Rightarrow> string" where
  "py_str_mul s n = concat (replicate (nat n) s)"

definition ljust :: "nat \<Rightarrow> string \<Rightarrow> string" where
  "ljust w s = s @ replicate (w - length s) CHR '' ''"

definition rjust :: "nat \<Rightarrow> string \<Rightarrow> string" where
  "rjust w s = replicate (w - length s) CHR '' '' @ s"

text \<open>
  \<^verbatim>\<open>xs[i]\<close> on a list of length \<open>n\<close>: the element at \<open>i\<close> for \<open>0 \<le> i < n\<close>, the
  element at \<open>n + i\<close> for \<open>- n \<le> i < 0\<close>, and \<^verbatim>\<open>IndexError\<close> otherwise.
\<close>

definition py_get :: "'a list \<Rightarrow> int \<Rightarrow> error + 'a" where
  "py_get xs i =
     (if 0 \<le> i \<and> i < int (length xs) then Inr (xs ! nat i)
      else if i < 0 \<and> - int (length xs) \<le> i then Inr (xs ! nat (int (length xs) + i))
      else Inl IndexError)"

section \<open>BaseFeed\<close>

text \<open>
  \<^verbatim>\<open>BaseFeed.__init__\<close> (feeds.py 15-21) loads the \<^verbatim>\<open>base\<close> section of the
  configuration file (here the argument \<open>base\<close>, a dict from option names to values) and
  then sets \<^verbatim>\<open>header\<close> and \<^verbatim>\<open>update_message\<close> to \<^verbatim>\<open>None\<close>.
\<close>

type_synonym config = "string \<rightharpoonup> pyval"

definition BaseFeed_init :: "config \<Rightarrow> config" where
  "BaseFeed_init base = (base(''header'' \<mapsto> PyNone))(''update_message'' \<mapsto> PyNone)"

text \<open>
  \<^verbatim>\<open>BaseFeed._update_config\<close> (feeds.py 35-39): \<^verbatim>\<open>cfg.update(dict)\<close> on the
  attributes of the namespace (\<^verbatim>\<open>get_config\<close> cannot raise after \<^verbatim>\<open>__init__\<close>:
  the config is a namespace from then on).
\<close>

definition update_config :: "config \<Rightarrow> config \<Rightarrow> config" where
  "update_config cfg dict = cfg ++ dict"

text \<open>
  The constructor shared by \<^verbatim>\<open>DatetimeFeed\<close>, \<^verbatim>\<open>FinanceFeed\<close>, \<^verbatim>\<open>NewsFeed\<close>,
  \<^verbatim>\<open>WeatherFeed\<close> and \<^verbatim>\<open>ISSFeed\<close>: \<^verbatim>\<open>super().__init__()\<close>, then
  \<^verbatim>\<open>self._update_config(config)\<close>.  Its value is the instance's effective configuration.
\<close>

definition Feed_init :: "config \<Rightarrow> config \<Rightarrow> config" where
  "Feed_init base overrides = update_config (BaseFeed_init base) overrides"

text \<open>The merge the specification describes, from its words: override wins, else base.\<close>

definition resolve :: "config \<Rightarrow> config \<Rightarrow> config" where
  "resolve base_layer overrides =
     (\<lambda>k. case overrides k of Some v \<Rightarrow> Some v | None \<Rightarrow> base_layer k)"

text \<open>
  \<^verbatim>\<open>BaseFeed._get_header\<close> (feeds.py 81-91).  \<^verbatim>\<open>int(x / 2)\<close> is a true division
  followed by truncation towards zero (exact for every width a float represents exactly,
  below \<open>2^53\<close>).
\<close>

definition int_half :: "int \<Rightarrow> int" where
  "int_half x = (if 0 \<le> x then x div 2 else - ((- x) div 2))"

definition get_header :: "int \<Rightarrow> string \<times> string \<times> string \<Rightarrow> string" where
  "get_header width hdr =
     (case hdr of (left_marker, string0, right_marker) \<Rightarrow>
        let string = py_upper (py_strip string0);
            num_markers = (if int (length string) + 4 < width
                           then int_half (width - 4 - int (length string))
                           else 0)
        in py_str_mul left_marker num_markers @ '' '' @ string @ '' ''
             @ py_str_mul right_marker num_markers)"

text \<open>
  \<^verbatim>\<open>timedelta(minutes=m)\<close> for an integer \<open>m\<close>, in microseconds; outside the range of
  \<^verbatim>\<open>timedelta\<close> (999999999 days either way) the constructor raises
  \<^verbatim>\<open>OverflowError\<close>.
\<close>

definition timedelta_minutes :: "int \<Rightarrow> error + int" where
  "timedelta_minutes m =
     (let us = m * 60000000
      in if - 86399999913600000000 \<le> us \<and> us \<le> 86399999999999999999
         then Inr us else Inl OverflowError)"

text \<open>
  The options of the base layer that the lifecycle reads.  The delays are the arguments of
  \<^verbatim>\<open>time.sleep\<close>, numbers of seconds.
\<close>

record base_config =
  line_width :: int
  print_delay :: real
  newline_delay :: real
  pause_time :: real
  subsegment_delay :: real
  segment_delay :: real
  refresh :: int
  verbose_updates :: bool
  update_message :: "string option"
  header :: "(string \<times> string \<times> string) option"

text \<open>
  What a call does is a run: the steps it has started, in order, and the exception that ended
  it, if one did.  \<open>Slown\<close> is a pause row, \<open>Slowp s\<close> the timed printing of the line
  \<open>s\<close>, \<open>PrintUpdateMsg\<close> the update banner, \<open>SetData\<close> the feed's fetch step and
  \<open>SetContent\<close> its content builder.  In \<open>then_run r s\<close> the run \<open>s\<close> follows \<open>r\<close>
  only when \<open>r\<close> has not raised.
\<close>

datatype event = Slown | Slowp string | PrintUpdateMsg | SetData | SetContent

type_synonym run = "event list \<times> error option"

definition skip :: run where
  "skip = ([], None)"

definition raise :: "error \<Rightarrow> run" where
  "raise e = ([], Some e)"

definition then_run :: "run \<Rightarrow> run \<Rightarrow> run" where
  "then_run r s = (case snd r of Some e \<Rightarrow> r | None \<Rightarrow> (fst r @ fst s, snd s))"

definition seq_runs :: "run list \<Rightarrow> run" where
  "seq_runs rs = foldr then_run rs skip"

text \<open>\<^verbatim>\<open>time.sleep(d)\<close> raises \<^verbatim>\<open>ValueError\<close> for a negative \<open>d\<close>.\<close>

definition sleep :: "real \<Rightarrow> run" where
  "sleep d = (if d < 0 then raise ValueError else skip)"

text \<open>
  \<^verbatim>\<open>BaseFeed._slown\<close> (feeds.py 57-69).  \<^verbatim>\<open>random.randrange(line_width)\<close> raises
  \<^verbatim>\<open>ValueError\<close> for a width that is not positive.  With a positive width the loop runs at
  least once and passes the pause position once, so each of the three sleeps is reached; the
  repetitions of a sleep that has returned return too.
\<close>

definition slown :: "base_config \<Rightarrow> run" where
  "slown cfg =
     then_run ([Slown], None)
       (if line_width cfg \<le> 0 then raise ValueError
        else seq_runs [sleep (newline_delay cfg), sleep (pause_time cfg), sleep (print_delay cfg)])"

text \<open>
  \<^verbatim>\<open>BaseFeed._slowp\<close> (feeds.py 41-55).  A string no longer than the line width is printed
  with a sleep after each character and after the terminator.  A longer one is wrapped by
  \<^verbatim>\<open>textwrap.wrap\<close> (here the argument \<open>wrap\<close>), which raises \<^verbatim>\<open>ValueError\<close> for a
  width that is not positive and otherwise returns lines no longer than the width, so that
  the recursive call for each line prints it.
\<close>

definition slowp_line :: "base_config \<Rightarrow> string \<Rightarrow> run" where
  "slowp_line cfg s = then_run ([Slowp s], None) (sleep (print_delay cfg))"

definition slowp :: "base_config \<Rightarrow> (string \<Rightarrow> int \<Rightarrow> string list) \<Rightarrow> string \<Rightarrow> run" where
  "slowp cfg wrap s =
     (if int (length s) > line_width cfg
      then (if line_width cfg \<le> 0 then raise ValueError
            else seq_runs (map (slowp_line cfg) (wrap s (line_width cfg))))
      else slowp_line cfg s)"

text \<open>
  \<^verbatim>\<open>BaseFeed._print_update_msg\<close> (feeds.py 71-79); the f-string renders a missing label
  as \<^verbatim>\<open>None\<close>.
\<close>

definition print_update_msg :: "base_config \<Rightarrow> (string \<Rightarrow> int \<Rightarrow> string list) \<Rightarrow> run" where
  "print_update_msg cfg wrap =
     then_run ([PrintUpdateMsg], None)
       (seq_runs
          [slowp cfg wrap (''['' @ (case update_message cfg of None \<Rightarrow> ''None'' | Some m \<Rightarrow> m)),
           sleep (subsegment_delay cfg), slowp cfg wrap ''.'',
           sleep (subsegment_delay cfg), slowp cfg wrap ''.'',
           sleep (subsegment_delay cfg), slowp cfg wrap ''.'',
           sleep (subsegment_delay cfg), slowp cfg wrap '']'',
           slown cfg])"

text \<open>
  \<^verbatim>\<open>BaseFeed._refresh_data\<close> (feeds.py 93-99).  \<open>fetched\<close> is
  \<^verbatim>\<open>self.data.get('fetched_on')\<close>: \<open>None\<close> when the data has no such key (the data is
  \<^verbatim>\<open>{}\<close> until the first fetch), and then \<^verbatim>\<open>datetime.min\<close> stands in for it.
  \<open>fetch_raises\<close> is the exception of the feed's \<^verbatim>\<open>_set_data\<close> in this call, if it
  raises one.
\<close>

definition refresh_data ::
  "base_config \<Rightarrow> (string \<Rightarrow> int \<Rightarrow> string list) \<Rightarrow> datetime \<Rightarrow> datetime option
     \<Rightarrow> error option \<Rightarrow> run" where
  "refresh_data cfg wrap now fetched fetch_raises =
     (let data_age = now - (case fetched of None \<Rightarrow> datetime_min | Some t \<Rightarrow> t)
      in case timedelta_minutes (refresh cfg) of
           Inl e \<Rightarrow> raise e
         | Inr interval \<Rightarrow>
             if data_age \<ge> interval
             then then_run
                    (if verbose_updates cfg \<and> update_message cfg \<noteq> None
                     then print_update_msg cfg wrap else skip)
                    ([SetData], fetch_raises)
             else skip)"

text \<open>
  \<^verbatim>\<open>BaseFeed.show\<close> (feeds.py 101-116).  \<open>built\<close> is what the feed's
  \<^verbatim>\<open>_set_content\<close> does in this call: the exception it raises or the content it builds.
\<close>

definition render_line :: "base_config \<Rightarrow> (string \<Rightarrow> int \<Rightarrow> string list) \<Rightarrow> string \<Rightarrow> run" where
  "render_line cfg wrap line = (if line = [] then slown cfg else slowp cfg wrap line)"

definition BaseFeed_show ::
  "base_config \<Rightarrow> (string \<Rightarrow> int \<Rightarrow> string list) \<Rightarrow> datetime \<Rightarrow> datetime option
     \<Rightarrow> error option \<Rightarrow> error + string list \<Rightarrow> run" where
  "BaseFeed_show cfg wrap now fetched fetch_raises built =
     seq_runs
       [slown cfg,
        slown cfg,
        refresh_data cfg wrap now fetched fetch_raises,
        ([SetContent], case built of Inl e \<Rightarrow> Some e | Inr content \<Rightarrow> None),
        (case header cfg of
           None \<Rightarrow> skip
         | Some h \<Rightarrow> slowp cfg wrap (get_header (line_width cfg) h)),
        slown cfg,
        seq_runs (map (render_line cfg wrap) (case built of Inl e \<Rightarrow> [] | Inr content \<Rightarrow> content)),
        slown cfg,
        sleep (segment_delay cfg)]"

text \<open>Whether a run ended without an exception, and whether its steps include the fetch step.\<close>

definition returns :: "run \<Rightarrow> bool" where
  "returns r = (snd r = None)"

definition invokes_fetch :: "run \<Rightarrow> bool" where
  "invokes_fetch r = (SetData \<in> set (fst r))"

section \<open>DatetimeFeed\<close>

text \<open>
  \<^verbatim>\<open>DatetimeFeed._set_content\<close> (feeds.py 151-170).  The if/elif chain that picks the
  ordinal suffix of \<^verbatim>\<open>now.day\<close>:
\<close>

definition ordinal_suffix :: "int \<Rightarrow> string" where
  "ordinal_suffix day_num =
     (if day_num \<in> {1, 21, 31} then ''st''
      else if day_num \<in> {2, 22} then ''nd''
      else if day_num \<in> {3, 23} then ''rd''
      else ''th'')"

text \<open>
  The content builder.  \<open>strftime_text\<close> is the value of \<^verbatim>\<open>now.strftime(self.config.format)\<close>
  and \<open>time_text\<close> that of \<^verbatim>\<open>sp.format_time(now)\<close> (both computed outside this
  repository's sources); \<open>day_num\<close> is \<^verbatim>\<open>now.day\<close>.
\<close>

definition DatetimeFeed_date_text :: "string \<Rightarrow> int \<Rightarrow> string" where
  "DatetimeFeed_date_text strftime_text day_num =
     strftime_text @ py_str day_num @ ordinal_suffix day_num"

definition DatetimeFeed_set_content :: "bool \<Rightarrow> string \<Rightarrow> string \<Rightarrow> int \<Rightarrow> string list" where
  "DatetimeFeed_set_content descriptive strftime_text time_text day_num =
     (let date_text = DatetimeFeed_date_text strftime_text day_num
      in if descriptive
         then [''It is '' @ date_text, ''Current time is '' @ time_text]
         else [time_text @ '' '' @ date_text])"

text \<open>
  The rule of the specification, from its words: the standard English ordinal rule
  (last digit 1, 2, 3 gives st, nd, rd, except in the teens).
\<close>

definition english_ordinal :: "int \<Rightarrow> string" where
  "english_ordinal d =
     (if d mod 100 \<in> {11, 12, 13} then ''th''
      else if d mod 10 = 1 then ''st''
      else if d mod 10 = 2 then ''nd''
      else if d mod 10 = 3 then ''rd''
      else ''th'')"

section \<open>FinanceFeed\<close>

text \<open>
  The finance snapshot: the market message, the fetch time and the indexes, each with the
  texts of its name, price, change and change in percent.
\<close>

record index_entry =
  name :: string
  price :: string
  delta :: string
  delta_pct :: string

record finance_data =
  market_message :: string
  fetched_on :: datetime
  indexes :: "index_entry list"

text \<open>
  \<^verbatim>\<open>FinanceFeed._set_content\<close> (feeds.py 181-192).  The loop over the indexes comes
  after the \<^verbatim>\<open>if/else\<close>, not inside its \<^verbatim>\<open>else\<close> branch.  \<open>format_time\<close> is
  \<^verbatim>\<open>sp.format_time\<close>, a function of a module outside these sources.
\<close>

fun finance_index_loop :: "index_entry list \<Rightarrow> string list \<Rightarrow> string list" where
  "finance_index_loop [] content = content"
| "finance_index_loop (i # rest) content =
     finance_index_loop rest
       (content @ [[],
                   ''    '' @ ljust 9 (name i) @ ''  '' @ rjust 9 (price i),
                   ''               '' @ rjust 9 (delta i) @ ''  '' @ delta_pct i])"

definition FinanceFeed_set_content :: "(datetime \<Rightarrow> string) \<Rightarrow> finance_data \<Rightarrow> string list" where
  "FinanceFeed_set_content format_time d =
     finance_index_loop (indexes d)
       (if py_in ''CLOSED'' (py_upper (market_message d))
        then [market_message d]
        else [''As of '' @ format_time (fetched_on d)])"

section \<open>NewsFeed\<close>

record news_item =
  headline :: string
  summary :: string

record news_config =
  cycle :: bool
  items :: int
  show_summary :: bool

text \<open>
  The loop of \<^verbatim>\<open>NewsFeed._set_content\<close> (feeds.py 211-220) over the values of \<open>i\<close>.
  The state is the cursor \<^verbatim>\<open>current_index\<close>, the content built so far and, as a record
  of what the loop does, the indexes at which it has read the item list (one for the
  headline and, with summaries shown, one more for the summary, at the same index).
\<close>

fun news_loop ::
  "bool \<Rightarrow> news_item list \<Rightarrow> int list \<Rightarrow> int \<times> string list \<times> int list
     \<Rightarrow> error + (int \<times> string list \<times> int list)" where
  "news_loop ss data_items [] st = Inr st"
| "news_loop ss data_items (i # rest) (current_index, content, reads) =
     (let advanced = current_index + i;
          current_index = (if advanced \<ge> int (length data_items) then 0 else advanced)
      in case py_get data_items current_index of
           Inl e \<Rightarrow> Inl e
         | Inr item \<Rightarrow>
             if ss
             then news_loop ss data_items rest
                    (current_index,
                     content @ [[], headline item] @ [[], summary item, []],
                     reads @ [current_index, current_index])
             else news_loop ss data_items rest
                    (current_index, content @ [[], headline item], reads @ [current_index]))"

text \<open>
  \<^verbatim>\<open>NewsFeed._set_content\<close> (feeds.py 205-220), from the cursor before the call to the
  cursor after it, the content and the indexes read; \<^verbatim>\<open>range(1, items+1)\<close> is
  \<open>[1..items]\<close>.
\<close>

definition NewsFeed_set_content ::
  "news_config \<Rightarrow> news_item list \<Rightarrow> int \<Rightarrow> error + (int \<times> string list \<times> int list)" where
  "NewsFeed_set_content cfg data_items current_index =
     (let current_index = (if \<not> cycle cfg then 0 else current_index);
          n = min (items cfg) (int (length data_items))
      in news_loop (show_summary cfg) data_items [1..n] (current_index, [], []))"

text \<open>
  The rotation rule of the specification, from its words: the cursor after the \<open>k\<close>-th
  entry of a call is the cursor before it advanced by \<open>k\<close>, and 0 when that reaches or
  passes the item count; the entry is the headline (and the summary if enabled) at that
  cursor, with blank-line separators.
\<close>

fun spec_cursor :: "int \<Rightarrow> int \<Rightarrow> nat \<Rightarrow> int" where
  "spec_cursor n c 0 = c"
| "spec_cursor n c (Suc k) =
     (if spec_cursor n c k + int (Suc k) \<ge> n then 0 else spec_cursor n c k + int (Suc k))"

definition spec_entry :: "bool \<Rightarrow> news_item \<Rightarrow> string list" where
  "spec_entry ss item =
     (if ss then [[], headline item, [], summary item, []] else [[], headline item])"

definition spec_news_content :: "bool \<Rightarrow> news_item list \<Rightarrow> int \<Rightarrow> nat \<Rightarrow> string list" where
  "spec_news_content ss data_items c k =
     concat (map (\<lambda>j. spec_entry ss (data_items ! nat (spec_cursor (int (length data_items)) c j)))
                 [1..<Suc k])"

definition spec_news_reads :: "bool \<Rightarrow> int \<Rightarrow> int \<Rightarrow> nat \<Rightarrow> int list" where
  "spec_news_reads ss n c k =
     concat (map (\<lambda>j. replicate (if ss then 2 else 1) (spec_cursor n c j)) [1..<Suc k])"

text \<open>
  \<open>m\<close> successive calls of \<^verbatim>\<open>_set_content\<close> on one instance over a fixed snapshot: the
  cursor each call leaves is the cursor the next call starts from; the value is the list of
  the contents built, in order.
\<close>

fun set_content_calls :: "news_config \<Rightarrow> news_item list \<Rightarrow> nat \<Rightarrow> int \<Rightarrow> error + string list list" where
  "set_content_calls cfg data_items 0 c = Inr []"
| "set_content_calls cfg data_items (Suc m) c =
     (case NewsFeed_set_content cfg data_items c of
        Inl e \<Rightarrow> Inl e
      | Inr (c', content, reads) \<Rightarrow>
          (case set_content_calls cfg data_items m c' of
             Inl e \<Rightarrow> Inl e
           | Inr rest \<Rightarrow> Inr (content # rest)))"

text \<open>
  The cursor of a news feed instance: \<^verbatim>\<open>NewsFeed.__init__\<close> sets it to 0 (feeds.py
  199), and only \<^verbatim>\<open>_set_content\<close> changes it.  \<open>cursor_after cfg history c\<close> is the
  cursor after successive calls on the snapshots of \<open>history\<close>, one call for each (the data
  may have been fetched anew between two calls), from the cursor \<open>c\<close>.
\<close>

definition NewsFeed_init_cursor :: int where
  "NewsFeed_init_cursor = 0"

fun cursor_after :: "news_config \<Rightarrow> news_item list list \<Rightarrow> int \<Rightarrow> error + int" where
  "cursor_after cfg [] c = Inr c"
| "cursor_after cfg (data_items # later) c =
     (case NewsFeed_set_content cfg data_items c of
        Inl e \<Rightarrow> Inl e
      | Inr (c', content, reads) \<Rightarrow> cursor_after cfg later c')"

section \<open>ISSFeed\<close>

record sighting =
  date_time :: datetime
  date_text :: string
  time_text :: string
  visible :: string
  max_height :: string
  appears :: string
  disappears :: string

record iss_data =
  location :: string
  sightings :: "sighting list"

text \<open>
  \<^verbatim>\<open>ISSFeed._set_content\<close> (feeds.py 272-292); \<open>now\<close> is \<^verbatim>\<open>dt.datetime.now()\<close>.
  The early exit tests the length of the sightings list, before any filtering.
\<close>

fun iss_loop :: "int \<Rightarrow> datetime \<Rightarrow> sighting list \<Rightarrow> string list \<times> int \<Rightarrow> string list \<times> int" where
  "iss_loop max_sightings cutoff_dt [] st = st"
| "iss_loop max_sightings cutoff_dt (s # rest) (content, num_shown) =
     (if date_time s \<ge> cutoff_dt \<and> num_shown < max_sightings
      then iss_loop max_sightings cutoff_dt rest
             (content @ [[],
                         ''    '' @ date_text s @ '' @ '' @ time_text s,
                         ''      Visible for '' @ visible s,
                         ''      Max height '' @ max_height s @ '' Degrees'',
                         ''      From '' @ appears s,
                         ''      To   '' @ disappears s],
              num_shown + 1)
      else iss_loop max_sightings cutoff_dt rest (content, num_shown))"

definition ISSFeed_set_content :: "int \<Rightarrow> datetime \<Rightarrow> iss_data \<Rightarrow> string list" where
  "ISSFeed_set_content max_sightings now d =
     (if length (sightings d) = 0
      then [''No ISS Sightings Available'']
      else fst (iss_loop max_sightings now (sightings d)
                  ([location d, ''Upcoming ISS Sightings:''], 0)))"

text \<open>The sightings that qualify, from the words of the specification: start time not before now.\<close>

definition qualifying :: "datetime \<Rightarrow> sighting list \<Rightarrow> sighting list" where
  "qualifying now ss = filter (\<lambda>s. date_time s \<ge> now) ss"

section \<open>Sequencer\<close>

text \<open>
  \<^verbatim>\<open>construct_sequence\<close> (retrofeed.py 7-31).  Feed instances are objects on the heap,
  and the sequence holds references to them: the heap is the list of the objects created
  so far, a reference is a position in it.  \<open>sections\<close> is the parsed configuration file
  (\<^verbatim>\<open>cfg[feed]\<close>), \<open>globals\<close> maps a class name to its constructor
  (\<^verbatim>\<open>globals()[...]\<close>), and \<open>instances\<close> is the dict from feed names to references.
\<close>

type_synonym ref = nat

fun construct_loop ::
  "(string \<rightharpoonup> config) \<Rightarrow> (string \<rightharpoonup> (config \<Rightarrow> error + 'f)) \<Rightarrow> string list
     \<Rightarrow> ref list \<times> (string \<rightharpoonup> ref) \<times> 'f list
     \<Rightarrow> error + (ref list \<times> (string \<rightharpoonup> ref) \<times> 'f list)" where
  "construct_loop sections globals [] st = Inr st"
| "construct_loop sections globals (feed # rest) (sequence, instances, heap) =
     (case instances feed of
        Some r \<Rightarrow> construct_loop sections globals rest (sequence @ [r], instances, heap)
      | None \<Rightarrow>
          (case sections feed of
             None \<Rightarrow> Inl KeyError
           | Some feed_config \<Rightarrow>
               (case feed_config ''feed_class'' of
                  None \<Rightarrow> Inl KeyError
                | Some (PyStr cls) \<Rightarrow>
                    (case globals cls of
                       None \<Rightarrow> Inl KeyError
                     | Some feed_class \<Rightarrow>
                         (case feed_class feed_config of
                            Inl e \<Rightarrow> Inl e
                          | Inr feed_instance \<Rightarrow>
                              construct_loop sections globals rest
                                (sequence @ [length heap],
                                 instances(feed \<mapsto> length heap),
                                 heap @ [feed_instance])))
                | Some (PyList l) \<Rightarrow> Inl TypeError
                | Some _ \<Rightarrow> Inl KeyError)))"

definition construct_sequence ::
  "string list \<Rightarrow> (string \<rightharpoonup> config) \<Rightarrow> (string \<rightharpoonup> (config \<Rightarrow> error + 'f))
     \<Rightarrow> error + (ref list \<times> 'f list)" where
  "construct_sequence names sections globals =
     (case construct_loop sections globals names ([], Map.empty, []) of
        Inl e \<Rightarrow> Inl e
      | Inr (sequence, instances, heap) \<Rightarrow> Inr (sequence, heap))"

text \<open>
  One pass of the main loop (retrofeed.py 43-44): \<^verbatim>\<open>feed.show()\<close> on each entry of the
  sequence in order, where \<open>sh\<close> is what \<^verbatim>\<open>show\<close> does to the state of the instance
  it is called on.  The object behind the reference is updated in place.
\<close>

fun loop_pass :: "('f \<Rightarrow> 'f) \<Rightarrow> ref list \<Rightarrow> 'f list \<Rightarrow> 'f list" where
  "loop_pass sh [] heap = heap"
| "loop_pass sh (feed # rest) heap = loop_pass sh rest (heap[feed := sh (heap ! feed)])"

text \<open>
  The invariant of the loop of \<^verbatim>\<open>construct_sequence\<close>: every reference in the dict of
  instances points into the heap, and no two names share a reference.
\<close>

definition refs_ok :: "(string \<rightharpoonup> ref) \<Rightarrow> 'f list \<Rightarrow> bool" where
  "refs_ok instances heap \<longleftrightarrow>
     (\<forall>n r. instances n = Some r \<longrightarrow> r < length heap)
     \<and> (\<forall>n n' r. instances n = Some r \<and> instances n' = Some r \<longrightarrow> n = n')"

section \<open>Properties\<close>

subsection \<open>Clock feed\<close>

lemma ordinal_suffix_english:
  assumes "1 \<le> d" and "d \<le> 31"
  shows "ordinal_suffix d = english_ordinal d"
proof -
  have "d mod 100 = d" using assms by simp
  moreover have "d mod 10 = 1 \<longleftrightarrow> d \<in> {1, 11, 21, 31}" using assms by (simp, presburger)
  moreover have "d mod 10 = 2 \<longleftrightarrow> d \<in> {2, 12, 22}" using assms by (simp, presburger)
  moreover have "d mod 10 = 3 \<longleftrightarrow> d \<in> {3, 13, 23}" using assms by (simp, presburger)
  ultimately show ?thesis
    by (auto simp add: ordinal_suffix_def english_ordinal_def)
qed

text \<open>
  C7.  For every day of the month from 1 to 31 the clock feed's suffix is st for 1, 21, 31,
  nd for 2, 22, rd for 3, 23 and th for every other day (11, 12 and 13 included).  On that
  range this is the standard English ordinal, and it is the suffix that ends the date text
  of the content in both the compact and the descriptive form.
\<close>

theorem ordinal_suffix_table:
  "1 \<le> d \<and> d \<le> 31 \<Longrightarrow>
     ordinal_suffix d =
       (if d = 1 \<or> d = 21 \<or> d = 31 then ''st''
        else if d = 2 \<or> d = 22 then ''nd''
        else if d = 3 \<or> d = 23 then ''rd''
        else ''th'')
     \<and> (d = 11 \<or> d = 12 \<or> d = 13 \<longrightarrow> ordinal_suffix d = ''th'')
     \<and> ordinal_suffix d = english_ordinal d
     \<and> DatetimeFeed_set_content False fmt tm d = [tm @ '' '' @ fmt @ py_str d @ ordinal_suffix d]
     \<and> DatetimeFeed_set_content True fmt tm d =
         [''It is '' @ fmt @ py_str d @ ordinal_suffix d, ''Current time is '' @ tm]"
proof -
  assume d: "1 \<le> d \<and> d \<le> 31"
  have table: "ordinal_suffix d =
       (if d = 1 \<or> d = 21 \<or> d = 31 then ''st''
        else if d = 2 \<or> d = 22 then ''nd''
        else if d = 3 \<or> d = 23 then ''rd''
        else ''th'')"
    by (simp add: ordinal_suffix_def)
  have teens: "d = 11 \<or> d = 12 \<or> d = 13 \<longrightarrow> ordinal_suffix d = ''th''"
    by (auto simp add: ordinal_suffix_def)
  have english: "ordinal_suffix d = english_ordinal d"
    using d by (simp add: ordinal_suffix_english)
  have compact: "DatetimeFeed_set_content False fmt tm d
                   = [tm @ '' '' @ fmt @ py_str d @ ordinal_suffix d]"
    by (simp add: DatetimeFeed_set_content_def DatetimeFeed_date_text_def)
  have descriptive: "DatetimeFeed_set_content True fmt tm d =
         [''It is '' @ fmt @ py_str d @ ordinal_suffix d, ''Current time is '' @ tm]"
    by (simp add: DatetimeFeed_set_content_def DatetimeFeed_date_text_def)
  from table teens english compact descriptive show ?thesis
    by blast
qed

theorem ordinal_suffix_table_witness:
  "ordinal_suffix 12 = ''th'' \<and> ordinal_suffix 12 = english_ordinal 12
   \<and> DatetimeFeed_set_content False ''November '' ''9:30 PM'' 12 = [''9:30 PM November 12th'']"
  using ordinal_suffix_table [of 12 "''November ''" "''9:30 PM''"]
  by (simp add: py_str_def digit_char_def ordinal_suffix_def english_ordinal_def)


subsection \<open>Finance feed\<close>

lemma finance_index_loop_append:
  "finance_index_loop is content = content @ finance_index_loop is []"
proof (induction "is" arbitrary: content)
  case Nil
  then show ?case by simp
next
  case (Cons i rest)
  show ?case
    using Cons.IH [of "content @ [[], ''    '' @ ljust 9 (name i) @ ''  '' @ rjust 9 (price i),
                   ''               '' @ rjust 9 (delta i) @ ''  '' @ delta_pct i]"]
          Cons.IH [of "[[], ''    '' @ ljust 9 (name i) @ ''  '' @ rjust 9 (price i),
                   ''               '' @ rjust 9 (delta i) @ ''  '' @ delta_pct i]"]
    by simp
qed

lemma finance_index_loop_length:
  "length (finance_index_loop is content) = length content + 3 * length is"
  by (induction "is" arbitrary: content) simp_all

text \<open>
  C1, as stated, fails: with the message "Market is CLOSED for holiday" and one index in
  the snapshot, the content is the message followed by the three lines of the index block,
  not the message alone.
\<close>

theorem finance_closed_counterexample:
  "py_in ''CLOSED'' (py_upper ''Market is CLOSED for holiday'')
   \<and> FinanceFeed_set_content (\<lambda>t. ''12:00 PM'')
       \<lparr>market_message = ''Market is CLOSED for holiday'', fetched_on = 0,
        indexes = [\<lparr>name = ''DJIA'', price = ''100.00'', delta = ''+1.00'',
                    delta_pct = ''+1.0%''\<rparr>]\<rparr>
     = [''Market is CLOSED for holiday'', '''',
        ''    DJIA          100.00'',
        ''                   +1.00  +1.0%'']
   \<and> FinanceFeed_set_content (\<lambda>t. ''12:00 PM'')
       \<lparr>market_message = ''Market is CLOSED for holiday'', fetched_on = 0,
        indexes = [\<lparr>name = ''DJIA'', price = ''100.00'', delta = ''+1.00'',
                    delta_pct = ''+1.0%''\<rparr>]\<rparr>
     \<noteq> [''Market is CLOSED for holiday'']"
  by (simp add: FinanceFeed_set_content_def py_upper_def upper_char_def ljust_def rjust_def
        eval_nat_numeral)

text \<open>
  C1, amended.  For every finance snapshot whose market message contains CLOSED in any
  letter case, the content is that message (in place of the "As of" line) followed by the
  blocks of the indexes in the snapshot, three lines for each; it is the one-element list
  of the message exactly when the snapshot has no index.
\<close>

theorem finance_closed_content:
  "py_in ''CLOSED'' (py_upper (market_message d)) \<Longrightarrow>
     FinanceFeed_set_content format_time d = market_message d # finance_index_loop (indexes d) []
     \<and> length (FinanceFeed_set_content format_time d) = 1 + 3 * length (indexes d)
     \<and> (FinanceFeed_set_content format_time d = [market_message d] \<longleftrightarrow> indexes d = [])"
proof -
  assume closed: "py_in ''CLOSED'' (py_upper (market_message d))"
  have eq: "FinanceFeed_set_content format_time d
              = market_message d # finance_index_loop (indexes d) []"
    using closed finance_index_loop_append [of "indexes d" "[market_message d]"]
    by (simp add: FinanceFeed_set_content_def)
  have len: "length (FinanceFeed_set_content format_time d) = 1 + 3 * length (indexes d)"
    using closed by (simp add: FinanceFeed_set_content_def finance_index_loop_length)
  have "FinanceFeed_set_content format_time d = [market_message d] \<longleftrightarrow> indexes d = []"
  proof
    assume "FinanceFeed_set_content format_time d = [market_message d]"
    then have "length (FinanceFeed_set_content format_time d) = 1" by simp
    with len show "indexes d = []" by simp
  next
    assume "indexes d = []"
    with eq show "FinanceFeed_set_content format_time d = [market_message d]" by simp
  qed
  with eq len show ?thesis by blast
qed

theorem finance_closed_content_witness:
  "py_in ''CLOSED'' (py_upper ''Markets closed'')
   \<and> FinanceFeed_set_content (\<lambda>t. ''12:00 PM'')
       \<lparr>market_message = ''Markets closed'', fetched_on = 0, indexes = []\<rparr>
     = [''Markets closed'']"
proof -
  have closed: "py_in ''CLOSED'' (py_upper (market_message
                  \<lparr>market_message = ''Markets closed'', fetched_on = 0, indexes = []\<rparr>))"
    by (simp add: py_upper_def upper_char_def)
  from finance_closed_content [OF closed, of "\<lambda>t. ''12:00 PM''"] closed
  show ?thesis by simp
qed

subsection \<open>ISS feed\<close>

lemma iss_no_sightings:
  "sightings d = [] \<Longrightarrow> ISSFeed_set_content max_sightings now d = [''No ISS Sightings Available'']"
  by (simp add: ISSFeed_set_content_def)

text \<open>
  C2.  The code at a snapshot whose only sighting started before now: no sighting
  qualifies, and the content is the location header and the "Upcoming ISS Sightings:"
  line with nothing under them, not the single line "No ISS Sightings Available".
\<close>

theorem iss_past_sighting_content:
  "qualifying 100
     [\<lparr>date_time = 50, date_text = ''Mon Nov 2'', time_text = ''6:01 PM'', visible = ''4 min'',
       max_height = ''40'', appears = ''NW'', disappears = ''SE''\<rparr>] = []
   \<and> ISSFeed_set_content 5 100
       \<lparr>location = ''Boston, MA'',
        sightings = [\<lparr>date_time = 50, date_text = ''Mon Nov 2'', time_text = ''6:01 PM'',
                      visible = ''4 min'', max_height = ''40'', appears = ''NW'',
                      disappears = ''SE''\<rparr>]\<rparr>
     = [''Boston, MA'', ''Upcoming ISS Sightings:'']"
  by (simp add: ISSFeed_set_content_def qualifying_def)

subsection \<open>Configuration\<close>

text \<open>
  C3, as stated, fails for the key \<^verbatim>\<open>header\<close>: with a header in the base layer and none
  in the overrides, the instance's header is \<^verbatim>\<open>None\<close>, not the base value.
\<close>

theorem feed_init_header_counterexample:
  "[''feed_class'' \<mapsto> PyStr ''NewsFeed''] ''header'' = None
   \<and> [''header'' \<mapsto> PyList [PyStr ''*'', PyStr ''News'', PyStr ''*''],
      ''line_width'' \<mapsto> PyInt 40] ''header''
       = Some (PyList [PyStr ''*'', PyStr ''News'', PyStr ''*''])
   \<and> Feed_init [''header'' \<mapsto> PyList [PyStr ''*'', PyStr ''News'', PyStr ''*''],
                ''line_width'' \<mapsto> PyInt 40]
               [''feed_class'' \<mapsto> PyStr ''NewsFeed''] ''header'' = Some PyNone"
  by (simp add: Feed_init_def update_config_def BaseFeed_init_def map_add_def)

text \<open>
  C3, amended.  The effective configuration of a constructed feed instance maps every key
  present in the overrides to its override value, every key absent from the overrides
  other than \<^verbatim>\<open>header\<close> and \<^verbatim>\<open>update_message\<close> to its base-layer value, and
  \<^verbatim>\<open>header\<close> and \<^verbatim>\<open>update_message\<close>, when absent from the overrides, to
  \<^verbatim>\<open>None\<close> whatever the base layer holds: it is the merge of the specification applied
  to the base layer with these two keys reset.
\<close>

theorem feed_init_effective_config:
  "(k \<in> dom overrides \<longrightarrow> Feed_init base overrides k = overrides k)
   \<and> (k \<notin> dom overrides \<and> k \<noteq> ''header'' \<and> k \<noteq> ''update_message''
        \<longrightarrow> Feed_init base overrides k = base k)
   \<and> (k \<notin> dom overrides \<and> (k = ''header'' \<or> k = ''update_message'')
        \<longrightarrow> Feed_init base overrides k = Some PyNone)
   \<and> Feed_init base overrides
       = resolve (base(''header'' \<mapsto> PyNone, ''update_message'' \<mapsto> PyNone)) overrides"
  by (auto simp add: Feed_init_def update_config_def BaseFeed_init_def map_add_def resolve_def
        fun_eq_iff split: option.splits)

theorem feed_init_effective_config_witness:
  "Feed_init [''line_width'' \<mapsto> PyInt 40, ''refresh'' \<mapsto> PyInt 30, ''header'' \<mapsto> PyStr ''x'']
             [''refresh'' \<mapsto> PyInt 5, ''cycle'' \<mapsto> PyBool True] ''refresh'' = Some (PyInt 5)
   \<and> Feed_init [''line_width'' \<mapsto> PyInt 40, ''refresh'' \<mapsto> PyInt 30, ''header'' \<mapsto> PyStr ''x'']
             [''refresh'' \<mapsto> PyInt 5, ''cycle'' \<mapsto> PyBool True] ''line_width'' = Some (PyInt 40)
   \<and> Feed_init [''line_width'' \<mapsto> PyInt 40, ''refresh'' \<mapsto> PyInt 30, ''header'' \<mapsto> PyStr ''x'']
             [''refresh'' \<mapsto> PyInt 5, ''cycle'' \<mapsto> PyBool True] ''header'' = Some PyNone"
  using feed_init_effective_config [of "''refresh''" "[''refresh'' \<mapsto> PyInt 5, ''cycle'' \<mapsto> PyBool True]"
          "[''line_width'' \<mapsto> PyInt 40, ''refresh'' \<mapsto> PyInt 30, ''header'' \<mapsto> PyStr ''x'']"]
        feed_init_effective_config [of "''line_width''" "[''refresh'' \<mapsto> PyInt 5, ''cycle'' \<mapsto> PyBool True]"
          "[''line_width'' \<mapsto> PyInt 40, ''refresh'' \<mapsto> PyInt 30, ''header'' \<mapsto> PyStr ''x'']"]
        feed_init_effective_config [of "''header''" "[''refresh'' \<mapsto> PyInt 5, ''cycle'' \<mapsto> PyBool True]"
          "[''line_width'' \<mapsto> PyInt 40, ''refresh'' \<mapsto> PyInt 30, ''header'' \<mapsto> PyStr ''x'']"]
  by (simp add: resolve_def)

subsection \<open>Header\<close>

lemma length_concat_replicate: "length (concat (replicate k s)) = k * length s"
  by (induction k) simp_all

lemma get_header_too_wide_example:
  "get_header 10 (''*'', ''  a very long title '', ''*'') = '' A VERY LONG TITLE ''"
  by (simp add: get_header_def py_upper_def py_strip_def is_space_def upper_char_def
        py_str_mul_def)

text \<open>
  C5.  For every line width and every title: when the length of the trimmed, uppercased
  title plus 4 is at most the line width, the header is no longer than the line width (for
  markers of one character each: the header format is a marker character, the title text
  and a marker character); when the title plus 4 characters of padding does not fit (or fits
  exactly), whatever the markers, the marker count is zero and the header degrades to the
  title alone, that is \<open>markers + " " + title + " " + markers\<close> with no markers: the
  trimmed, uppercased title between the two separating spaces.
\<close>

theorem get_header_length:
  "(length left_marker = 1 \<and> length right_marker = 1
      \<and> int (length (py_upper (py_strip title))) + 4 \<le> width \<longrightarrow>
       int (length (get_header width (left_marker, title, right_marker))) \<le> width)
   \<and> (width \<le> int (length (py_upper (py_strip title))) + 4 \<longrightarrow>
       get_header width (left_marker, title, right_marker)
         = py_str_mul left_marker 0 @ '' '' @ py_upper (py_strip title) @ '' ''
             @ py_str_mul right_marker 0
       \<and> get_header width (left_marker, title, right_marker)
         = '' '' @ py_upper (py_strip title) @ '' '')"
proof -
  define t where "t = py_upper (py_strip title)"
  have fits: "int (length (get_header width (left_marker, title, right_marker))) \<le> width"
    if m: "length left_marker = 1 \<and> length right_marker = 1" and "int (length t) + 4 \<le> width"
  proof (cases "int (length t) + 4 < width")
    case True
    then have "int (length (get_header width (left_marker, title, right_marker)))
                 = 2 * ((width - 4 - int (length t)) div 2) + 2 + int (length t)"
      using m by (simp add: get_header_def t_def [symmetric] length_concat_replicate
                    py_str_mul_def int_half_def Let_def)
    also have "\<dots> \<le> width" by simp
    finally show ?thesis .
  next
    case False
    then show ?thesis using that
      by (simp add: get_header_def t_def [symmetric] py_str_mul_def)
  qed
  have bare: "get_header width (left_marker, title, right_marker) = '' '' @ t @ '' ''"
    if "width \<le> int (length t) + 4"
    using that by (simp add: get_header_def t_def [symmetric] py_str_mul_def)
  have zero: "py_str_mul left_marker 0 = [] \<and> py_str_mul right_marker 0 = []"
    by (simp add: py_str_mul_def)
  from fits bare zero show ?thesis unfolding t_def by simp
qed

theorem get_header_length_witness:
  "int (length (get_header 20 (''*'', '' news '', ''=''))) \<le> 20
   \<and> get_header 7 (''*'', '' news '', ''='') = '' NEWS ''"
proof -
  have t: "py_upper (py_strip '' news '') = ''NEWS''"
    by (simp add: py_upper_def py_strip_def is_space_def upper_char_def)
  from get_header_length [of "''*''" "''=''" "'' news ''" 20]
       get_header_length [of "''*''" "''=''" "'' news ''" 7] t
  show ?thesis by (simp add: py_str_mul_def)
qed

subsection \<open>Refresh gating\<close>

lemma then_run_fetch:
  "SetData \<in> set (fst (then_run r s))
     \<longleftrightarrow> SetData \<in> set (fst r) \<or> (snd r = None \<and> SetData \<in> set (fst s))"
  by (cases r) (auto simp add: then_run_def split: option.splits)

lemma then_run_returns:
  "snd (then_run r s) = None \<longleftrightarrow> snd r = None \<and> snd s = None"
  by (cases r) (auto simp add: then_run_def split: option.splits)

lemma seq_runs_Nil: "seq_runs [] = skip"
  by (simp add: seq_runs_def)

lemma seq_runs_Cons: "seq_runs (r # rs) = then_run r (seq_runs rs)"
  by (simp add: seq_runs_def)

lemma sleep_no_fetch: "SetData \<notin> set (fst (sleep d))"
  by (simp add: sleep_def raise_def skip_def)

lemma slown_no_fetch: "SetData \<notin> set (fst (slown cfg))"
  by (simp add: slown_def then_run_fetch seq_runs_Cons seq_runs_Nil sleep_no_fetch raise_def skip_def)

lemma slown_returns:
  "returns (slown cfg) \<longleftrightarrow>
     0 < line_width cfg \<and> 0 \<le> newline_delay cfg \<and> 0 \<le> pause_time cfg \<and> 0 \<le> print_delay cfg"
  by (auto simp add: returns_def slown_def then_run_returns seq_runs_Cons seq_runs_Nil sleep_def
        raise_def skip_def)

lemma slowp_line_no_fetch: "SetData \<notin> set (fst (slowp_line cfg s))"
  by (simp add: slowp_line_def then_run_fetch sleep_no_fetch)

lemma seq_slowp_lines_no_fetch: "SetData \<notin> set (fst (seq_runs (map (slowp_line cfg) ls)))"
  by (induction ls)
     (simp_all add: seq_runs_Cons seq_runs_Nil skip_def then_run_fetch slowp_line_no_fetch)

lemma slowp_no_fetch: "SetData \<notin> set (fst (slowp cfg wrap s))"
  by (simp add: slowp_def raise_def seq_slowp_lines_no_fetch slowp_line_no_fetch)

lemma print_update_msg_no_fetch: "SetData \<notin> set (fst (print_update_msg cfg wrap))"
  by (simp add: print_update_msg_def then_run_fetch seq_runs_Cons seq_runs_Nil skip_def
        slowp_no_fetch sleep_no_fetch slown_no_fetch)

lemma refresh_data_fetch:
  assumes "timedelta_minutes (refresh cfg) = Inr interval"
  shows "SetData \<in> set (fst (refresh_data cfg wrap now fo fetch_raises))
     \<longleftrightarrow> now - (case fo of None \<Rightarrow> datetime_min | Some t \<Rightarrow> t) \<ge> interval
         \<and> (verbose_updates cfg \<and> update_message cfg \<noteq> None
              \<longrightarrow> returns (print_update_msg cfg wrap))"
  using assms
  by (auto simp add: refresh_data_def Let_def then_run_fetch print_update_msg_no_fetch skip_def
        returns_def)

lemma render_lines_no_fetch:
  "SetData \<notin> set (fst (seq_runs (map (render_line cfg wrap) content)))"
  by (induction content)
     (simp_all add: seq_runs_Cons seq_runs_Nil skip_def then_run_fetch render_line_def
        slown_no_fetch slowp_no_fetch)

lemma header_no_fetch:
  "SetData \<notin> set (fst (case header cfg of None \<Rightarrow> skip
                            | Some h \<Rightarrow> slowp cfg wrap (get_header (line_width cfg) h)))"
  by (simp add: skip_def slowp_no_fetch split: option.splits)

lemma show_fetch:
  "invokes_fetch (BaseFeed_show cfg wrap now fo fetch_raises built)
     \<longleftrightarrow> returns (slown cfg)
         \<and> SetData \<in> set (fst (refresh_data cfg wrap now fo fetch_raises))"
  by (simp add: invokes_fetch_def BaseFeed_show_def seq_runs_Cons seq_runs_Nil then_run_fetch
        slown_no_fetch returns_def render_lines_no_fetch header_no_fetch sleep_no_fetch skip_def)

lemma slowp_returns:
  "0 < line_width cfg \<Longrightarrow> 0 \<le> print_delay cfg \<Longrightarrow> returns (slowp cfg wrap s)"
proof -
  assume w: "0 < line_width cfg" and d: "0 \<le> print_delay cfg"
  have line: "snd (slowp_line cfg l) = None" for l
    using d by (simp add: slowp_line_def then_run_returns sleep_def skip_def)
  have "snd (seq_runs (map (slowp_line cfg) ls)) = None" for ls
    by (induction ls) (simp_all add: seq_runs_Cons seq_runs_Nil skip_def then_run_returns line)
  then show ?thesis using w line by (simp add: returns_def slowp_def)
qed

lemma print_update_msg_returns:
  "returns (print_update_msg cfg wrap) \<longleftrightarrow> returns (slown cfg) \<and> 0 \<le> subsegment_delay cfg"
proof (cases "returns (slown cfg)")
  case True
  then have w: "0 < line_width cfg" and d: "0 \<le> print_delay cfg"
    by (simp_all add: slown_returns)
  have p: "snd (slowp cfg wrap s) = None" for s
    using slowp_returns [OF w d] by (simp add: returns_def)
  from True show ?thesis
    by (auto simp add: returns_def print_update_msg_def then_run_returns seq_runs_Cons seq_runs_Nil
          p sleep_def skip_def raise_def)
next
  case False
  then have "\<not> returns (print_update_msg cfg wrap)"
    by (auto simp add: returns_def print_update_msg_def then_run_returns seq_runs_Cons seq_runs_Nil)
  with False show ?thesis by simp
qed

text \<open>
  C6, as stated, fails.  Missing data does not always trigger a fetch: the stand-in for a
  missing fetch time is \<^verbatim>\<open>datetime.min\<close>, so with a refresh interval of 2000000000
  minutes (a valid \<^verbatim>\<open>timedelta\<close>, about 3800 years) a feed without data, shown on
  4 November 2026 at noon, does not fetch.  And stale data is not fetched when the line width
  is 0: the first pause row raises \<^verbatim>\<open>ValueError\<close> before the refresh step.
\<close>

theorem show_missing_data_counterexample:
  "timedelta_minutes 2000000000 = Inr 120000000000000000
   \<and> BaseFeed_show \<lparr>line_width = 40, print_delay = 0, newline_delay = 0, pause_time = 0,
                   subsegment_delay = 0, segment_delay = 0, refresh = 2000000000,
                   verbose_updates = False, update_message = None, header = None\<rparr>
       (\<lambda>s w. [s]) 63929390400000000 None None (Inr [''x''])
     = ([Slown, Slown, SetContent, Slown, Slowp ''x'', Slown], None)
   \<and> \<not> invokes_fetch
         (BaseFeed_show \<lparr>line_width = 40, print_delay = 0, newline_delay = 0, pause_time = 0,
                         subsegment_delay = 0, segment_delay = 0, refresh = 2000000000,
                         verbose_updates = False, update_message = None, header = None\<rparr>
            (\<lambda>s w. [s]) 63929390400000000 None None (Inr [''x'']))
   \<and> BaseFeed_show \<lparr>line_width = 0, print_delay = 0, newline_delay = 0, pause_time = 0,
                   subsegment_delay = 0, segment_delay = 0, refresh = 30,
                   verbose_updates = False, update_message = None, header = None\<rparr>
       (\<lambda>s w. [s]) 63929390400000000 (Some 0) None (Inr [''x''])
     = ([Slown], Some ValueError)"
  by (simp add: BaseFeed_show_def refresh_data_def timedelta_minutes_def datetime_min_def
        render_line_def invokes_fetch_def seq_runs_def then_run_def slown_def slowp_def
        slowp_line_def sleep_def skip_def raise_def)

text \<open>
  C6, amended.  For every feed with a fetch step and a refresh interval that is a valid
  \<^verbatim>\<open>timedelta\<close>: when the pause rows render (positive line width, no negative print,
  newline or pause delay) and, if the update banner is shown, the subsegment delay is not
  negative, a call of \<^verbatim>\<open>show\<close> invokes the fetch step if and only if
  \<open>now - fetched_on\<close> is at least the refresh interval, where \<^verbatim>\<open>datetime.min\<close> stands
  in for a missing \<open>fetched_on\<close>.  So \<open>fetched_on = now - (interval - eps)\<close> does not
  fetch and \<open>fetched_on = now - (interval + eps)\<close> does, for every \<open>eps > 0\<close>; missing
  data is the stalest data there is (it fetches whenever some fetch time would), and it
  fetches whenever the interval is not longer than the time since \<^verbatim>\<open>datetime.min\<close>.
  When a pause row does not render, \<^verbatim>\<open>show\<close> raises \<^verbatim>\<open>ValueError\<close> and
  fetches nothing.
\<close>

theorem show_fetch_iff_stale:
  "timedelta_minutes (refresh cfg) = Inr interval \<Longrightarrow>
     (returns (slown cfg)
      \<and> (verbose_updates cfg \<and> update_message cfg \<noteq> None \<longrightarrow> 0 \<le> subsegment_delay cfg) \<longrightarrow>
        (invokes_fetch (BaseFeed_show cfg wrap now fo fetch_raises built)
           \<longleftrightarrow> now - (case fo of None \<Rightarrow> datetime_min | Some t \<Rightarrow> t) \<ge> interval)
      \<and> (0 < eps \<longrightarrow> \<not> invokes_fetch
             (BaseFeed_show cfg wrap now (Some (now - (interval - eps))) fetch_raises built))
      \<and> (0 < eps \<longrightarrow> invokes_fetch
             (BaseFeed_show cfg wrap now (Some (now - (interval + eps))) fetch_raises built))
      \<and> (datetime_min \<le> t \<and> invokes_fetch (BaseFeed_show cfg wrap now (Some t) fetch_raises built)
            \<longrightarrow> invokes_fetch (BaseFeed_show cfg wrap now None fetch_raises built))
      \<and> (interval \<le> now - datetime_min
            \<longrightarrow> invokes_fetch (BaseFeed_show cfg wrap now None fetch_raises built)))
   \<and> (\<not> returns (slown cfg) \<longrightarrow>
        \<not> invokes_fetch (BaseFeed_show cfg wrap now fo fetch_raises built)
        \<and> snd (BaseFeed_show cfg wrap now fo fetch_raises built) = Some ValueError)"
proof -
  assume i: "timedelta_minutes (refresh cfg) = Inr interval"
  note f = refresh_data_fetch [OF i]
  have raises: "snd (BaseFeed_show cfg wrap now fo fetch_raises built) = Some ValueError"
    if "\<not> returns (slown cfg)"
  proof -
    have "snd (slown cfg) = Some ValueError"
      using that
      by (auto simp add: returns_def slown_def then_run_def seq_runs_Cons seq_runs_Nil sleep_def
            raise_def skip_def split: option.splits if_splits)
    then show ?thesis
      by (simp add: BaseFeed_show_def seq_runs_Cons then_run_def)
  qed
  show ?thesis
    using raises by (auto simp add: show_fetch f print_update_msg_returns)
qed

theorem show_fetch_iff_stale_witness:
  "timedelta_minutes 30 = Inr 1800000000
   \<and> returns (slown \<lparr>line_width = 40, print_delay = 0, newline_delay = 0, pause_time = 0,
                     subsegment_delay = 0, segment_delay = 0, refresh = 30,
                     verbose_updates = True, update_message = Some ''Updating'',
                     header = None\<rparr>)
   \<and> \<not> invokes_fetch
         (BaseFeed_show \<lparr>line_width = 40, print_delay = 0, newline_delay = 0, pause_time = 0,
                         subsegment_delay = 0, segment_delay = 0, refresh = 30,
                         verbose_updates = True, update_message = Some ''Updating'',
                         header = None\<rparr>
            (\<lambda>s w. [s]) 63929390400000000 (Some (63929390400000000 - (1800000000 - 1)))
            None (Inr [''x'']))
   \<and> invokes_fetch
         (BaseFeed_show \<lparr>line_width = 40, print_delay = 0, newline_delay = 0, pause_time = 0,
                         subsegment_delay = 0, segment_delay = 0, refresh = 30,
                         verbose_updates = True, update_message = Some ''Updating'',
                         header = None\<rparr>
            (\<lambda>s w. [s]) 63929390400000000 (Some (63929390400000000 - (1800000000 + 1)))
            None (Inr [''x'']))
   \<and> invokes_fetch
         (BaseFeed_show \<lparr>line_width = 40, print_delay = 0, newline_delay = 0, pause_time = 0,
                         subsegment_delay = 0, segment_delay = 0, refresh = 30,
                         verbose_updates = True, update_message = Some ''Updating'',
                         header = None\<rparr>
            (\<lambda>s w. [s]) 63929390400000000 None None (Inr [''x'']))
   \<and> \<not> invokes_fetch
         (BaseFeed_show \<lparr>line_width = 0, print_delay = 0, newline_delay = 0, pause_time = 0,
                         subsegment_delay = 0, segment_delay = 0, refresh = 30,
                         verbose_updates = True, update_message = Some ''Updating'',
                         header = None\<rparr>
            (\<lambda>s w. [s]) 63929390400000000 None None (Inr [''x'']))"
proof -
  let ?cfg = "\<lparr>line_width = 40, print_delay = 0, newline_delay = 0, pause_time = 0,
               subsegment_delay = 0, segment_delay = 0, refresh = 30,
               verbose_updates = True, update_message = Some ''Updating'', header = None\<rparr>"
  let ?bad = "\<lparr>line_width = 0, print_delay = 0, newline_delay = 0, pause_time = 0,
               subsegment_delay = 0, segment_delay = 0, refresh = 30,
               verbose_updates = True, update_message = Some ''Updating'', header = None\<rparr>"
  have i: "timedelta_minutes (refresh ?cfg) = Inr 1800000000"
    by (simp add: timedelta_minutes_def)
  have j: "timedelta_minutes (refresh ?bad) = Inr 1800000000"
    by (simp add: timedelta_minutes_def)
  have ok: "returns (slown ?cfg)"
    by (simp add: returns_def slown_def then_run_def seq_runs_def sleep_def skip_def)
  have bad: "\<not> returns (slown ?bad)"
    by (simp add: returns_def slown_def then_run_def raise_def)
  from show_fetch_iff_stale [OF i, of "\<lambda>s w. [s]" 63929390400000000 None None "Inr [''x'']" 1 0]
       show_fetch_iff_stale [OF j, of "\<lambda>s w. [s]" 63929390400000000 None None "Inr [''x'']" 1 0]
       i ok bad
  show ?thesis by (simp add: datetime_min_def)
qed

subsection \<open>News feed\<close>

lemma upto_as_upt: "[1..int k] = map int [1..<Suc k]"
proof (induction k)
  case 0
  show ?case by simp
next
  case (Suc k)
  have "[1..int (Suc k)] = [1..int k] @ [int (Suc k)]"
    using upto_rec2 [of 1 "int (Suc k)"] by simp
  with Suc show ?case by simp
qed

lemma spec_cursor_nonneg: "0 \<le> c \<Longrightarrow> 0 \<le> spec_cursor n c k"
  by (induction k) simp_all

lemma spec_cursor_less: "0 < n \<Longrightarrow> spec_cursor n c (Suc k) < n"
  by simp

lemma py_get_in_range: "0 \<le> i \<Longrightarrow> i < int (length xs) \<Longrightarrow> py_get xs i = Inr (xs ! nat i)"
  by (simp add: py_get_def)

lemma news_loop_step:
  assumes "c' = (if cur + i \<ge> int (length data_items) then 0 else cur + i)"
    and "0 \<le> c'" and "c' < int (length data_items)"
  shows "news_loop ss data_items (i # rest) (cur, content, reads)
         = news_loop ss data_items rest
             (c', content @ spec_entry ss (data_items ! nat c'),
              reads @ replicate (if ss then 2 else 1) c')"
proof -
  have get: "py_get data_items c' = Inr (data_items ! nat c')"
    using assms(2) assms(3) by (rule py_get_in_range)
  have two: "replicate 2 c' = [c', c']"
    by (simp add: eval_nat_numeral)
  show ?thesis
    using get by (simp add: assms(1) [symmetric] spec_entry_def two)
qed

lemma news_loop_spec:
  assumes "data_items \<noteq> []" and "0 \<le> c"
  shows "news_loop ss data_items (map int [Suc m..<Suc (m + k)])
           (spec_cursor (int (length data_items)) c m, content, reads)
         = Inr (spec_cursor (int (length data_items)) c (m + k),
                content @ concat (map (\<lambda>j. spec_entry ss
                            (data_items ! nat (spec_cursor (int (length data_items)) c j)))
                          [Suc m..<Suc (m + k)]),
                reads @ concat (map (\<lambda>j. replicate (if ss then 2 else 1)
                            (spec_cursor (int (length data_items)) c j))
                          [Suc m..<Suc (m + k)]))"
proof (induction k arbitrary: m content reads)
  case 0
  show ?case by simp
next
  case (Suc k)
  let ?n = "int (length data_items)"
  let ?c' = "spec_cursor ?n c (Suc m)"
  have n: "0 < ?n" using assms(1) by simp
  have lo: "0 \<le> ?c'" using assms(2) by (rule spec_cursor_nonneg)
  have hi: "?c' < ?n" using n by (rule spec_cursor_less)
  have adv: "?c' = (if spec_cursor ?n c m + int (Suc m) \<ge> ?n then 0
                    else spec_cursor ?n c m + int (Suc m))"
    by simp
  have split: "[Suc m..<Suc (m + Suc k)] = Suc m # [Suc (Suc m)..<Suc (Suc m + k)]"
    by (simp add: upt_conv_Cons)
  have "news_loop ss data_items (map int [Suc m..<Suc (m + Suc k)])
                (spec_cursor ?n c m, content, reads)
        = news_loop ss data_items (int (Suc m) # map int [Suc (Suc m)..<Suc (Suc m + k)])
                (spec_cursor ?n c m, content, reads)"
    by (simp only: split list.map)
  also have "\<dots> = news_loop ss data_items (map int [Suc (Suc m)..<Suc (Suc m + k)])
                  (?c', content @ spec_entry ss (data_items ! nat ?c'),
                   reads @ replicate (if ss then 2 else 1) ?c')"
    using adv lo hi by (rule news_loop_step)
  also have "\<dots> = Inr (spec_cursor ?n c (Suc m + k),
                (content @ spec_entry ss (data_items ! nat ?c'))
                  @ concat (map (\<lambda>j. spec_entry ss (data_items ! nat (spec_cursor ?n c j)))
                          [Suc (Suc m)..<Suc (Suc m + k)]),
                (reads @ replicate (if ss then 2 else 1) ?c')
                  @ concat (map (\<lambda>j. replicate (if ss then 2 else 1) (spec_cursor ?n c j))
                          [Suc (Suc m)..<Suc (Suc m + k)]))"
    by (rule Suc.IH)
  finally have result: "news_loop ss data_items (map int [Suc m..<Suc (m + Suc k)])
                (spec_cursor ?n c m, content, reads)
        = Inr (spec_cursor ?n c (Suc m + k),
                (content @ spec_entry ss (data_items ! nat ?c'))
                  @ concat (map (\<lambda>j. spec_entry ss (data_items ! nat (spec_cursor ?n c j)))
                          [Suc (Suc m)..<Suc (Suc m + k)]),
                (reads @ replicate (if ss then 2 else 1) ?c')
                  @ concat (map (\<lambda>j. replicate (if ss then 2 else 1) (spec_cursor ?n c j))
                          [Suc (Suc m)..<Suc (Suc m + k)]))" .
  have split2: "[Suc m..<Suc (Suc (m + k))] = Suc m # [Suc (Suc m)..<Suc (Suc (m + k))]"
    by (simp add: upt_conv_Cons)
  show ?case
    unfolding result by (simp only: add_Suc_right add_Suc split2 list.map concat.simps append_assoc)
qed

lemma news_set_content_spec:
  assumes "data_items \<noteq> []" and "0 \<le> c0" and "c0 = (if cycle cfg then c else 0)"
    and "k = nat (min (items cfg) (int (length data_items)))"
  shows "NewsFeed_set_content cfg data_items c
         = Inr (spec_cursor (int (length data_items)) c0 k,
                spec_news_content (show_summary cfg) data_items c0 k,
                spec_news_reads (show_summary cfg) (int (length data_items)) c0 k)"
proof -
  let ?n = "int (length data_items)"
  have range: "[1..min (items cfg) ?n] = map int [Suc 0..<Suc (0 + k)]"
  proof (cases "0 \<le> min (items cfg) ?n")
    case True
    then have "min (items cfg) ?n = int k" using assms(4) by simp
    then show ?thesis using upto_as_upt [of k] by (simp del: upt_Suc)
  next
    case False
    then show ?thesis using assms(4) by simp
  qed
  have "NewsFeed_set_content cfg data_items c
          = news_loop (show_summary cfg) data_items [1..min (items cfg) ?n]
              (spec_cursor ?n c0 0, [], [])"
    using assms(3) by (simp add: NewsFeed_set_content_def Let_def)
  also have "\<dots> = news_loop (show_summary cfg) data_items (map int [Suc 0..<Suc (0 + k)])
              (spec_cursor ?n c0 0, [], [])"
    by (simp only: range)
  also have "\<dots> = Inr (spec_cursor ?n c0 (0 + k),
                [] @ concat (map (\<lambda>j. spec_entry (show_summary cfg)
                            (data_items ! nat (spec_cursor ?n c0 j)))
                          [Suc 0..<Suc (0 + k)]),
                [] @ concat (map (\<lambda>j. replicate (if show_summary cfg then 2 else 1)
                            (spec_cursor ?n c0 j))
                          [Suc 0..<Suc (0 + k)]))"
    by (rule news_loop_spec [OF assms(1) assms(2)])
  finally show ?thesis
    by (simp del: upt_Suc add: spec_news_content_def spec_news_reads_def)
qed

lemma news_set_content_empty:
  "NewsFeed_set_content cfg [] c = Inr (if cycle cfg then c else 0, [], [])"
proof -
  have "[1..min (items cfg) 0] = []" by simp
  then show ?thesis by (simp add: NewsFeed_set_content_def Let_def)
qed

lemma news_no_cycle_result:
  assumes "\<not> cycle cfg"
  shows "\<exists>r. \<forall>c. NewsFeed_set_content cfg data_items c = Inr r"
proof (cases "data_items = []")
  case True
  then show ?thesis using assms by (simp add: news_set_content_empty)
next
  case False
  have "\<forall>c. NewsFeed_set_content cfg data_items c
          = Inr (spec_cursor (int (length data_items)) 0
                   (nat (min (items cfg) (int (length data_items)))),
                 spec_news_content (show_summary cfg) data_items 0
                   (nat (min (items cfg) (int (length data_items)))),
                 spec_news_reads (show_summary cfg) (int (length data_items)) 0
                   (nat (min (items cfg) (int (length data_items)))))"
    using news_set_content_spec [OF False, of 0 cfg] assms by simp
  then show ?thesis by blast
qed

lemma set_content_calls_constant:
  assumes "\<forall>c. NewsFeed_set_content cfg data_items c = Inr (c', content, reads)"
  shows "set_content_calls cfg data_items m c = Inr (replicate m content)"
  using assms by (induction m arbitrary: c) simp_all

lemma spec_news_reads_bounds:
  assumes "0 < n" and "0 \<le> c"
  shows "\<forall>idx\<in>set (spec_news_reads ss n c k). 0 \<le> idx \<and> idx < n"
proof
  fix idx
  assume "idx \<in> set (spec_news_reads ss n c k)"
  then obtain j where j: "1 \<le> j" and idx: "idx = spec_cursor n c j"
    by (auto simp add: spec_news_reads_def simp del: upt_Suc split: if_splits)
  from j obtain j' where "j = Suc j'" by (cases j) auto
  with idx assms spec_cursor_nonneg [OF assms(2), of n j] show "0 \<le> idx \<and> idx < n"
    by simp
qed

lemma spec_news_content_length:
  "length (spec_news_content ss data_items c k) = (if ss then 5 else 2) * k"
  by (induction k) (simp_all add: spec_news_content_def spec_entry_def)

text \<open>
  C4.  For every news snapshot with a non-empty item list, with cycle enabled (and the
  cursor \<open>\<ge> 0\<close>, as it is from construction on), a call appends one entry for each
  \<open>i\<close> from 1 to \<open>min(items_wanted, available)\<close> (none when that is not positive): before
  selecting the \<open>i\<close>-th entry the cursor advances by \<open>i\<close> and is set to 0 when it reaches
  or passes the item count, as \<open>spec_cursor\<close> says, and the entry is read at that cursor.
  An entry is two lines (blank, headline), or five with the summary shown.
\<close>

theorem news_cycle_rotation:
  "cycle cfg \<and> data_items \<noteq> [] \<and> 0 \<le> c \<Longrightarrow>
     NewsFeed_set_content cfg data_items c
       = Inr (spec_cursor (int (length data_items)) c
                (nat (min (items cfg) (int (length data_items)))),
              spec_news_content (show_summary cfg) data_items c
                (nat (min (items cfg) (int (length data_items)))),
              spec_news_reads (show_summary cfg) (int (length data_items)) c
                (nat (min (items cfg) (int (length data_items)))))
   \<and> (0 \<le> items cfg \<longrightarrow>
        int (nat (min (items cfg) (int (length data_items))))
          = min (items cfg) (int (length data_items)))
   \<and> length (spec_news_content (show_summary cfg) data_items c
                (nat (min (items cfg) (int (length data_items)))))
       = (if show_summary cfg then 5 else 2) * nat (min (items cfg) (int (length data_items)))"
proof -
  assume a: "cycle cfg \<and> data_items \<noteq> [] \<and> 0 \<le> c"
  have "NewsFeed_set_content cfg data_items c
       = Inr (spec_cursor (int (length data_items)) c
                (nat (min (items cfg) (int (length data_items)))),
              spec_news_content (show_summary cfg) data_items c
                (nat (min (items cfg) (int (length data_items)))),
              spec_news_reads (show_summary cfg) (int (length data_items)) c
                (nat (min (items cfg) (int (length data_items)))))"
    using a news_set_content_spec [of data_items c cfg c] by simp
  then show ?thesis by (simp add: spec_news_content_length)
qed

theorem news_cycle_rotation_witness:
  "NewsFeed_set_content \<lparr>cycle = True, items = 3, show_summary = False\<rparr>
     [\<lparr>headline = ''a'', summary = ''A''\<rparr>, \<lparr>headline = ''b'', summary = ''B''\<rparr>,
      \<lparr>headline = ''c'', summary = ''C''\<rparr>, \<lparr>headline = ''d'', summary = ''D''\<rparr>,
      \<lparr>headline = ''e'', summary = ''E''\<rparr>] 0
   = Inr (0, [[], ''b'', [], ''d'', [], ''a''], [1, 3, 0])"
  using news_cycle_rotation [of "\<lparr>cycle = True, items = 3, show_summary = False\<rparr>"
     "[\<lparr>headline = ''a'', summary = ''A''\<rparr>, \<lparr>headline = ''b'', summary = ''B''\<rparr>,
      \<lparr>headline = ''c'', summary = ''C''\<rparr>, \<lparr>headline = ''d'', summary = ''D''\<rparr>,
      \<lparr>headline = ''e'', summary = ''E''\<rparr>]" 0]
  by (simp add: spec_news_content_def spec_news_reads_def spec_entry_def eval_nat_numeral)

text \<open>
  C8.  With cycle disabled the content builder of the news feed is idempotent: for a fixed
  snapshot a call starts from cursor 0 whatever the cursor was, so it returns the same
  result from every starting cursor, it returns the same result again from the cursor it
  leaves, and any number of successive calls build the same content each time.
\<close>

theorem news_no_cycle_idempotent:
  "\<not> cycle cfg \<Longrightarrow>
     NewsFeed_set_content cfg data_items c = NewsFeed_set_content cfg data_items 0
   \<and> (\<exists>c' content reads.
         NewsFeed_set_content cfg data_items c = Inr (c', content, reads)
         \<and> NewsFeed_set_content cfg data_items c' = Inr (c', content, reads)
         \<and> set_content_calls cfg data_items m c = Inr (replicate m content))"
proof -
  assume "\<not> cycle cfg"
  then obtain r where r: "\<forall>c. NewsFeed_set_content cfg data_items c = Inr r"
    using news_no_cycle_result by blast
  obtain c' content reads where split: "r = (c', content, reads)"
    by (cases r) auto
  have calls: "set_content_calls cfg data_items m c = Inr (replicate m content)"
    using r unfolding split by (rule set_content_calls_constant)
  from r split calls show ?thesis by simp
qed

theorem news_no_cycle_idempotent_witness:
  "set_content_calls \<lparr>cycle = False, items = 2, show_summary = True\<rparr>
     [\<lparr>headline = ''a'', summary = ''A''\<rparr>, \<lparr>headline = ''b'', summary = ''B''\<rparr>,
      \<lparr>headline = ''c'', summary = ''C''\<rparr>, \<lparr>headline = ''d'', summary = ''D''\<rparr>] 3 2
   = Inr (replicate 3 [[], ''b'', [], ''B'', [], [], ''d'', [], ''D'', []])"
  using news_no_cycle_idempotent [of "\<lparr>cycle = False, items = 2, show_summary = True\<rparr>"
     "[\<lparr>headline = ''a'', summary = ''A''\<rparr>, \<lparr>headline = ''b'', summary = ''B''\<rparr>,
      \<lparr>headline = ''c'', summary = ''C''\<rparr>, \<lparr>headline = ''d'', summary = ''D''\<rparr>]" 2 3]
  by (simp add: NewsFeed_set_content_def upto_rec1 py_get_def)

lemma news_cursor_any_start:
  "data_items \<noteq> [] \<and> 0 \<le> c \<Longrightarrow>
    (\<exists>c' content reads.
        NewsFeed_set_content cfg data_items c = Inr (c', content, reads)
      \<and> (\<forall>idx\<in>set reads. 0 \<le> idx \<and> idx < int (length data_items))
      \<and> 0 \<le> c'
      \<and> (1 \<le> items cfg \<or> \<not> cycle cfg \<or> c < int (length data_items)
            \<longrightarrow> c' < int (length data_items)))"
proof -
  assume a: "data_items \<noteq> [] \<and> 0 \<le> c"
  let ?n = "int (length data_items)"
  define c0 where "c0 = (if cycle cfg then c else 0)"
  define k where "k = nat (min (items cfg) ?n)"
  have n: "0 < ?n" using a by simp
  have c0: "0 \<le> c0" using a by (simp add: c0_def)
  have ne: "data_items \<noteq> []" using a by simp
  have res: "NewsFeed_set_content cfg data_items c
               = Inr (spec_cursor ?n c0 k, spec_news_content (show_summary cfg) data_items c0 k,
                      spec_news_reads (show_summary cfg) ?n c0 k)"
    using ne c0 c0_def k_def by (rule news_set_content_spec)
  have reads: "\<forall>idx\<in>set (spec_news_reads (show_summary cfg) ?n c0 k). 0 \<le> idx \<and> idx < ?n"
    using n c0 by (rule spec_news_reads_bounds)
  have lo: "0 \<le> spec_cursor ?n c0 k" using c0 by (rule spec_cursor_nonneg)
  have hi: "spec_cursor ?n c0 k < ?n"
    if "1 \<le> items cfg \<or> \<not> cycle cfg \<or> c < ?n"
  proof (cases k)
    case 0
    then have "items cfg \<le> 0" using n unfolding k_def by arith
    with that have "c0 < ?n" using n by (auto simp add: c0_def)
    with 0 show ?thesis by simp
  next
    case (Suc k')
    then show ?thesis using n by simp
  qed
  from res reads lo hi show ?thesis by blast
qed

lemma set_content_from_nonneg:
  assumes "0 \<le> c"
  shows "\<exists>c' content reads. NewsFeed_set_content cfg data_items c = Inr (c', content, reads)
           \<and> 0 \<le> c' \<and> (items cfg \<le> 0 \<and> c = 0 \<longrightarrow> c' = 0)"
proof (cases "data_items = []")
  case True
  then show ?thesis using assms by (simp add: news_set_content_empty)
next
  case False
  define c0 where "c0 = (if cycle cfg then c else 0)"
  define k where "k = nat (min (items cfg) (int (length data_items)))"
  have c0: "0 \<le> c0" using assms by (simp add: c0_def)
  have res: "NewsFeed_set_content cfg data_items c
               = Inr (spec_cursor (int (length data_items)) c0 k,
                      spec_news_content (show_summary cfg) data_items c0 k,
                      spec_news_reads (show_summary cfg) (int (length data_items)) c0 k)"
    using False c0 c0_def k_def by (rule news_set_content_spec)
  have lo: "0 \<le> spec_cursor (int (length data_items)) c0 k"
    using c0 by (rule spec_cursor_nonneg)
  have zero: "spec_cursor (int (length data_items)) c0 k = 0" if "items cfg \<le> 0 \<and> c = 0"
  proof -
    have "k = 0" using that by (simp add: k_def)
    moreover have "c0 = 0" using that by (simp add: c0_def)
    ultimately show ?thesis by simp
  qed
  from res lo zero show ?thesis by blast
qed

lemma cursor_after_invariant:
  assumes "0 \<le> c" and "items cfg \<le> 0 \<longrightarrow> c = 0"
  shows "\<exists>c'. cursor_after cfg history c = Inr c' \<and> 0 \<le> c' \<and> (items cfg \<le> 0 \<longrightarrow> c' = 0)"
  using assms
proof (induction history arbitrary: c)
  case Nil
  then show ?case by simp
next
  case (Cons data_items later)
  from set_content_from_nonneg [OF Cons.prems(1), of cfg data_items]
  obtain c1 content reads where
    call: "NewsFeed_set_content cfg data_items c = Inr (c1, content, reads)"
    and lo: "0 \<le> c1" and zero: "items cfg \<le> 0 \<and> c = 0 \<longrightarrow> c1 = 0"
    by blast
  have "items cfg \<le> 0 \<longrightarrow> c1 = 0" using zero Cons.prems(2) by blast
  from Cons.IH [OF lo this] call show ?case by simp
qed

text \<open>
  C10.  Whatever snapshots the earlier calls of a news feed instance were made on since its
  construction, the cursor they leave is \<open>\<ge> 0\<close>, and the next call on a snapshot with a
  non-empty item list returns, reads the item list only at indexes that are in bounds, and
  leaves a cursor \<open>c'\<close> with \<open>0 \<le> c' < number of items\<close>.
\<close>

theorem news_cursor_in_bounds:
  "data_items \<noteq> [] \<Longrightarrow>
     (\<exists>c c' content reads.
         cursor_after cfg history NewsFeed_init_cursor = Inr c
       \<and> 0 \<le> c
       \<and> NewsFeed_set_content cfg data_items c = Inr (c', content, reads)
       \<and> (\<forall>idx\<in>set reads. 0 \<le> idx \<and> idx < int (length data_items))
       \<and> 0 \<le> c' \<and> c' < int (length data_items))"
proof -
  assume ne: "data_items \<noteq> []"
  from cursor_after_invariant [of 0 cfg history]
  obtain c where reach: "cursor_after cfg history NewsFeed_init_cursor = Inr c"
    and lo: "0 \<le> c" and zero: "items cfg \<le> 0 \<longrightarrow> c = 0"
    by (auto simp add: NewsFeed_init_cursor_def)
  from news_cursor_any_start [of data_items c cfg] ne lo
  obtain c' content reads where
    call: "NewsFeed_set_content cfg data_items c = Inr (c', content, reads)"
    and reads: "\<forall>idx\<in>set reads. 0 \<le> idx \<and> idx < int (length data_items)"
    and lo': "0 \<le> c'"
    and hi: "1 \<le> items cfg \<or> \<not> cycle cfg \<or> c < int (length data_items)
               \<longrightarrow> c' < int (length data_items)"
    by blast
  have "1 \<le> items cfg \<or> c < int (length data_items)"
    using zero ne by (cases "items cfg \<le> 0") auto
  with hi have "c' < int (length data_items)" by blast
  with reach lo call reads lo' show ?thesis by blast
qed

theorem news_cursor_in_bounds_witness:
  "\<exists>c c' content reads.
     cursor_after \<lparr>cycle = True, items = 2, show_summary = False\<rparr>
       [[\<lparr>headline = ''a'', summary = ''A''\<rparr>, \<lparr>headline = ''b'', summary = ''B''\<rparr>,
         \<lparr>headline = ''c'', summary = ''C''\<rparr>, \<lparr>headline = ''d'', summary = ''D''\<rparr>,
         \<lparr>headline = ''e'', summary = ''E''\<rparr>]] NewsFeed_init_cursor = Inr c
     \<and> NewsFeed_set_content \<lparr>cycle = True, items = 2, show_summary = False\<rparr>
         [\<lparr>headline = ''x'', summary = ''X''\<rparr>, \<lparr>headline = ''y'', summary = ''Y''\<rparr>] c
         = Inr (c', content, reads)
     \<and> 0 \<le> c' \<and> c' < 2"
  using news_cursor_in_bounds [of
       "[\<lparr>headline = ''x'', summary = ''X''\<rparr>, \<lparr>headline = ''y'', summary = ''Y''\<rparr>]"
       "\<lparr>cycle = True, items = 2, show_summary = False\<rparr>"
       "[[\<lparr>headline = ''a'', summary = ''A''\<rparr>, \<lparr>headline = ''b'', summary = ''B''\<rparr>,
         \<lparr>headline = ''c'', summary = ''C''\<rparr>, \<lparr>headline = ''d'', summary = ''D''\<rparr>,
         \<lparr>headline = ''e'', summary = ''E''\<rparr>]]"]
  by auto


subsection \<open>Sequencer\<close>

lemma loop_pass_length: "length (loop_pass sh rs heap) = length heap"
  by (induction rs arbitrary: heap) simp_all

lemma loop_pass_nth:
  "r < length heap \<Longrightarrow> loop_pass sh rs heap ! r = (sh ^^ count_list rs r) (heap ! r)"
proof (induction rs arbitrary: heap)
  case Nil
  show ?case by simp
next
  case (Cons x rs)
  have "loop_pass sh (x # rs) heap ! r
          = (sh ^^ count_list rs r) (heap[x := sh (heap ! x)] ! r)"
    using Cons.IH [of "heap[x := sh (heap ! x)]"] Cons.prems by simp
  also have "\<dots> = (sh ^^ count_list (x # rs) r) (heap ! r)"
    using Cons.prems by (cases "x = r") (simp_all add: funpow_swap1)
  finally show ?case .
qed

lemma count_list_map_inj:
  "inj_on f (insert y (set xs)) \<Longrightarrow> count_list (map f xs) (f y) = count_list xs y"
proof (induction xs)
  case Nil
  show ?case by simp
next
  case (Cons x xs)
  have inj: "inj_on f (insert y (set xs))"
    using Cons.prems by (rule inj_on_subset) auto
  have "f x = f y \<longleftrightarrow> x = y"
    using Cons.prems by (auto simp add: inj_on_def)
  with Cons.IH [OF inj] show ?case by simp
qed

lemma construct_loop_step_found:
  "instances feed = Some r \<Longrightarrow>
   construct_loop sections globals (feed # rest) (sequence, instances, heap)
     = construct_loop sections globals rest (sequence @ [r], instances, heap)"
  by simp

lemma construct_loop_step_new:
  assumes "instances feed = None"
    and "construct_loop sections globals (feed # rest) (sequence, instances, heap) = Inr res"
  shows "\<exists>feed_instance.
           construct_loop sections globals rest
             (sequence @ [length heap], instances(feed \<mapsto> length heap), heap @ [feed_instance])
           = Inr res"
  using assms by (auto split: option.splits pyval.splits sum.splits)

lemma construct_loop_result:
  assumes "construct_loop sections globals names (sequence, instances, heap)
             = Inr (sequence', instances', heap')"
    and "refs_ok instances heap"
  shows "refs_ok instances' heap'
         \<and> instances \<subseteq>\<^sub>m instances'
         \<and> set names \<subseteq> dom instances'
         \<and> sequence' = sequence @ map (\<lambda>n. the (instances' n)) names"
  using assms
proof (induction names arbitrary: sequence instances heap)
  case Nil
  then show ?case by simp
next
  case (Cons feed rest)
  show ?case
  proof (cases "instances feed")
    case (Some r)
    have run: "construct_loop sections globals rest (sequence @ [r], instances, heap)
                 = Inr (sequence', instances', heap')"
      using Cons.prems(1) Some by simp
    note ih = Cons.IH [OF run Cons.prems(2)]
    from ih have sub: "instances \<subseteq>\<^sub>m instances'" by blast
    have feed: "instances' feed = Some r"
      using sub Some by (auto simp add: map_le_def dom_def)
    from ih feed show ?thesis by (auto simp add: dom_def)
  next
    case None
    from construct_loop_step_new [OF None Cons.prems(1)]
    obtain feed_instance where run:
      "construct_loop sections globals rest
         (sequence @ [length heap], instances(feed \<mapsto> length heap), heap @ [feed_instance])
       = Inr (sequence', instances', heap')"
      by blast
    have ok: "refs_ok (instances(feed \<mapsto> length heap)) (heap @ [feed_instance])"
      using Cons.prems(2) None unfolding refs_ok_def
      by (auto simp add: less_Suc_eq split: if_splits)
    note ih = Cons.IH [OF run ok]
    from ih have sub': "instances(feed \<mapsto> length heap) \<subseteq>\<^sub>m instances'" by blast
    have feed: "instances' feed = Some (length heap)"
      using sub' by (auto simp add: map_le_def)
    have sub: "instances \<subseteq>\<^sub>m instances'"
      using sub' None by (auto simp add: map_le_def dom_def split: if_splits)
    from ih feed sub show ?thesis by (auto simp add: dom_def)
  qed
qed

lemma construct_sequence_result:
  assumes "construct_sequence names sections globals = Inr (seq, heap)"
  shows "\<exists>instances. refs_ok instances heap \<and> set names \<subseteq> dom instances
           \<and> seq = map (\<lambda>n. the (instances n)) names"
proof -
  from assms obtain instances where run:
    "construct_loop sections globals names ([], Map.empty, []) = Inr (seq, instances, heap)"
    by (auto simp add: construct_sequence_def split: sum.splits)
  have "refs_ok Map.empty ([] :: 'a list)" by (simp add: refs_ok_def)
  from construct_loop_result [OF run this] show ?thesis by auto
qed

text \<open>
  C9.  When \<^verbatim>\<open>construct_sequence\<close> returns, the sequence has one reference for each
  configured name, and two positions hold the same reference exactly when they hold the
  same name: a name that occurs more than once gets one shared instance at every
  occurrence.  So in a pass of the main loop the instance that position \<open>j\<close> renders has
  already been changed by \<^verbatim>\<open>show\<close> once for every earlier occurrence of its name (at
  least once when there is an earlier occurrence \<open>i\<close>): what an earlier occurrence's render
  does to the instance, such as rotating the news cursor, is there for the later one.
\<close>

theorem construct_sequence_shares_instances:
  "construct_sequence names sections globals = Inr (seq, heap) \<Longrightarrow>
     length seq = length names
   \<and> (i < length names \<and> j < length names \<longrightarrow> (seq ! i = seq ! j \<longleftrightarrow> names ! i = names ! j))
   \<and> (j < length names \<longrightarrow>
        seq ! j < length heap
        \<and> loop_pass sh (take j seq) heap ! (seq ! j)
            = (sh ^^ count_list (take j names) (names ! j)) (heap ! (seq ! j)))
   \<and> (i < j \<and> j < length names \<and> names ! i = names ! j \<longrightarrow>
        0 < count_list (take j names) (names ! j))"
proof -
  assume "construct_sequence names sections globals = Inr (seq, heap)"
  then obtain instances where ok: "refs_ok instances heap"
    and dom: "set names \<subseteq> dom instances"
    and seq: "seq = map (\<lambda>n. the (instances n)) names"
    using construct_sequence_result by blast
  let ?f = "\<lambda>n. the (instances n)"
  have inj: "inj_on ?f (set names)"
  proof (rule inj_onI)
    fix x y
    assume "x \<in> set names" "y \<in> set names" "?f x = ?f y"
    then show "x = y" using dom ok unfolding refs_ok_def by (metis domD option.sel subsetD)
  qed
  have len: "length seq = length names" using seq by simp
  have same: "seq ! i = seq ! j \<longleftrightarrow> names ! i = names ! j"
    if "i < length names" "j < length names"
    using that inj seq by (auto simp add: inj_on_def)
  have bound: "seq ! j < length heap" if "j < length names"
  proof -
    have "names ! j \<in> dom instances" using that dom nth_mem [of j names] by blast
    then show ?thesis using ok that seq unfolding refs_ok_def by auto
  qed
  have pass: "loop_pass sh (take j seq) heap ! (seq ! j)
            = (sh ^^ count_list (take j names) (names ! j)) (heap ! (seq ! j))"
    if "j < length names"
  proof -
    have inj': "inj_on ?f (insert (names ! j) (set (take j names)))"
      using inj that by (rule_tac inj_on_subset) (auto dest: in_set_takeD)
    have "count_list (take j seq) (seq ! j) = count_list (map ?f (take j names)) (?f (names ! j))"
      using that seq by (simp add: take_map)
    also have "\<dots> = count_list (take j names) (names ! j)"
      using inj' by (rule count_list_map_inj)
    finally show ?thesis
      using loop_pass_nth [OF bound [OF that], of sh "take j seq"] by simp
  qed
  have earlier: "0 < count_list (take j names) (names ! j)"
    if "i < j" "j < length names" "names ! i = names ! j"
  proof -
    have "names ! i \<in> set (take j names)"
      using that by (metis in_set_conv_nth length_take min.absorb2 less_imp_le nth_take)
    then have "names ! j \<in> set (take j names)" using that by simp
    then have "count_list (take j names) (names ! j) \<noteq> 0"
      by (simp only: count_list_0_iff not_not)
    then show ?thesis by simp
  qed
  from len same bound pass earlier show ?thesis by blast
qed


theorem construct_sequence_shares_instances_witness:
  "construct_sequence [''news'', ''clock'', ''news'']
     [''news'' \<mapsto> [''feed_class'' \<mapsto> PyStr ''NewsFeed'', ''cycle'' \<mapsto> PyBool True],
      ''clock'' \<mapsto> [''feed_class'' \<mapsto> PyStr ''DatetimeFeed'']]
     [''NewsFeed'' \<mapsto> (\<lambda>config. Inr (0::int)), ''DatetimeFeed'' \<mapsto> (\<lambda>config. Inr 0)]
   = Inr ([0, 1, 0], [0, 0])
   \<and> [0, 1, 0 :: nat] ! 0 = [0, 1, 0] ! 2
   \<and> loop_pass (\<lambda>current_index. current_index + 1) (take 2 [0, 1, 0]) [0, 0 :: int] ! ([0, 1, 0] ! 2)
       = 1"
proof -
  have run: "construct_sequence [''news'', ''clock'', ''news'']
     [''news'' \<mapsto> [''feed_class'' \<mapsto> PyStr ''NewsFeed'', ''cycle'' \<mapsto> PyBool True],
      ''clock'' \<mapsto> [''feed_class'' \<mapsto> PyStr ''DatetimeFeed'']]
     [''NewsFeed'' \<mapsto> (\<lambda>config. Inr (0::int)), ''DatetimeFeed'' \<mapsto> (\<lambda>config. Inr 0)]
   = Inr ([0, 1, 0], [0, 0])"
    by (simp add: construct_sequence_def)
  from construct_sequence_shares_instances [OF run, of 0 2 "\<lambda>current_index. current_index + 1"] run
  show ?thesis by simp
qed

end
